theory Spec2Isabelle
  imports Main "HOL-Library.AList" "HOL-Library.Sublist"
begin

section \<open>The relay of app.py: values\<close>

text \<open>
  The bodies that Flask hands to the handlers as \<^verbatim>\<open>request.json\<close> are parsed JSON:
  None, a bool, a number, a str, a list or a dict with str keys. Numbers are kept to
  the integers; a dict is the list of its items, looked up with \<open>map_of\<close>. A request
  that Flask answers by itself while it evaluates \<^verbatim>\<open>request.json\<close> (a body that is
  not JSON) never reaches the tests of a handler and is no input of the functions below.
\<close>

datatype json =
    JNull
  | JBool bool
  | JInt int
  | JStr string
  | JList "json list"
  | JDict "(string \<times> json) list"

text \<open>Python's truth value of a parsed body, as \<^verbatim>\<open>not data\<close> and \<^verbatim>\<open>if data:\<close> test it.\<close>

fun truthy :: "json \<Rightarrow> bool" where
  "truthy JNull = False"
| "truthy (JBool b) = b"
| "truthy (JInt i) = (i \<noteq> 0)"
| "truthy (JStr s) = (s \<noteq> [])"
| "truthy (JList xs) = (xs \<noteq> [])"
| "truthy (JDict kvs) = (kvs \<noteq> [])"

text \<open>
  \<^verbatim>\<open>key in data\<close> for a str key: membership among the keys of a dict, among the
  elements of a list, as a substring of a str; a TypeError (here \<open>None\<close>) on None, a
  bool or a number.
\<close>

fun py_in :: "string \<Rightarrow> json \<Rightarrow> bool option" where
  "py_in k (JDict kvs) = Some (map_of kvs k \<noteq> None)"
| "py_in k (JList xs) = Some (JStr k \<in> set xs)"
| "py_in k (JStr s) = Some (sublist k s)"
| "py_in k JNull = None"
| "py_in k (JBool b) = None"
| "py_in k (JInt i) = None"

text \<open>
  \<^verbatim>\<open>data[key]\<close> for a str key: the value of a dict that has the key; a KeyError on a
  dict without it and a TypeError on every other value, both \<open>None\<close> here.
\<close>

fun subscript :: "json \<Rightarrow> string \<Rightarrow> json option" where
  "subscript (JDict kvs) k = map_of kvs k"
| "subscript JNull k = None"
| "subscript (JBool b) k = None"
| "subscript (JInt i) k = None"
| "subscript (JStr s) k = None"
| "subscript (JList xs) k = None"

text \<open>\<^verbatim>\<open>data.get(key, default)\<close>; reached on dicts only, other values return the default.\<close>

fun dict_get :: "json \<Rightarrow> string \<Rightarrow> json \<Rightarrow> json" where
  "dict_get (JDict kvs) k d = (case map_of kvs k of None \<Rightarrow> d | Some v \<Rightarrow> v)"
| "dict_get JNull k d = d"
| "dict_get (JBool b) k d = d"
| "dict_get (JInt i) k d = d"
| "dict_get (JStr s) k d = d"
| "dict_get (JList xs) k d = d"

text \<open>
  The keys of \<^verbatim>\<open>command_queue\<close>. A device id taken from a JSON body is any JSON value;
  as a dict key Python identifies \<^verbatim>\<open>True\<close> with 1 and \<^verbatim>\<open>False\<close> with 0, and refuses
  lists and dicts (TypeError: unhashable), here \<open>None\<close>.
\<close>

datatype pykey = KNone | KInt int | KStr string

fun hash_key :: "json \<Rightarrow> pykey option" where
  "hash_key JNull = Some KNone"
| "hash_key (JBool b) = Some (KInt (if b then 1 else 0))"
| "hash_key (JInt i) = Some (KInt i)"
| "hash_key (JStr s) = Some (KStr s)"
| "hash_key (JList xs) = None"
| "hash_key (JDict kvs) = None"

section \<open>The three stores and the upload directory\<close>

text \<open>
  A \<^verbatim>\<open>datetime\<close> is the number of microseconds since a fixed origin and a
  \<^verbatim>\<open>timedelta\<close> a number of microseconds, both of type \<open>int\<close>; the clock reading
  \<^verbatim>\<open>datetime.now()\<close> and the identifier \<^verbatim>\<open>str(uuid.uuid4())\<close> are inputs of the
  handler that takes them.
\<close>

type_synonym datetime = int
type_synonym timedelta = int

definition RESULT_EXPIRY :: timedelta where
  "RESULT_EXPIRY = 3600 * 1000000"

definition DEVICE_TIMEOUT :: timedelta where
  "DEVICE_TIMEOUT = 600 * 1000000"

record command =
  cmd_id :: string
  cmd_action :: json
  cmd_params :: json
  cmd_timestamp :: datetime

text \<open>
  An entry of \<^verbatim>\<open>results_store\<close>: the dict with \<^verbatim>\<open>'type': 'file'\<close> (file path, file
  name, timestamp) or with \<^verbatim>\<open>'type': 'data'\<close> (data, timestamp).
\<close>

datatype result =
    FileResult string string datetime
  | DataResult json datetime

fun res_timestamp :: "result \<Rightarrow> datetime" where
  "res_timestamp (FileResult p f t) = t"
| "res_timestamp (DataResult d t) = t"

text \<open>
  Python dicts keep their items in insertion order with distinct keys: a dict is the
  list of its items, \<open>AList.update\<close> is the assignment \<^verbatim>\<open>d[k] = v\<close> (in place when the
  key is there, at the end otherwise) and \<open>AList.delete\<close> is \<^verbatim>\<open>del d[k]\<close>. The field
  \<open>uploads\<close> is the content of the directory the blobs are saved in, from path to
  bytes.
\<close>

record state =
  command_queue :: "(pykey \<times> command list) list"
  results_store :: "(string \<times> result) list"
  device_last_seen :: "(string \<times> datetime) list"
  uploads :: "(string \<times> string) list"

definition init_state :: state where
  "init_state = \<lparr>command_queue = [], results_store = [], device_last_seen = [], uploads = []\<rparr>"

definition wf_state :: "state \<Rightarrow> bool" where
  "wf_state s \<longleftrightarrow>
     distinct (map fst (command_queue s)) \<and> distinct (map fst (results_store s)) \<and>
     distinct (map fst (device_last_seen s)) \<and> distinct (map fst (uploads s))"

section \<open>The handlers\<close>

record device_info =
  last_seen :: datetime
  seconds_ago :: int
  online :: bool

datatype response =
    Home nat
  | Queued string
  | Commands "command list"
  | FileUploaded
  | ResultStored
  | JsonBody json
  | Attachment string string
  | Devices "(string \<times> device_info) list"
  | Healthy datetime
  | BadRequest string
  | NotFound string
  | ServerError

text \<open>
  \<^verbatim>\<open>post_command\<close>. The f-string message of the answer is left out of \<open>Queued\<close>. An
  exception that no handler catches (the TypeError of a body that is no dict, or of an
  unhashable device id) ends the request with status 500 and the stores as they were.
\<close>

definition post_command :: "json \<Rightarrow> string \<Rightarrow> datetime \<Rightarrow> state \<Rightarrow> response \<times> state" where
  "post_command data uuid now s =
     (if \<not> truthy data then (BadRequest ''Missing device_id or action'', s)
      else case py_in ''device_id'' data of
        None \<Rightarrow> (ServerError, s)
      | Some False \<Rightarrow> (BadRequest ''Missing device_id or action'', s)
      | Some True \<Rightarrow>
         (case py_in ''action'' data of
            None \<Rightarrow> (ServerError, s)
          | Some False \<Rightarrow> (BadRequest ''Missing device_id or action'', s)
          | Some True \<Rightarrow>
             (case subscript data ''device_id'' of
                None \<Rightarrow> (ServerError, s)
              | Some device_id \<Rightarrow>
                 (case subscript data ''action'' of
                    None \<Rightarrow> (ServerError, s)
                  | Some act \<Rightarrow>
                     (let cmd = \<lparr>cmd_id = uuid, cmd_action = act,
                                 cmd_params = dict_get data ''params'' (JDict []),
                                 cmd_timestamp = now\<rparr>
                      in case hash_key device_id of
                        None \<Rightarrow> (ServerError, s)
                      | Some k \<Rightarrow>
                         (let cq1 = (if map_of (command_queue s) k = None
                                     then AList.update k [] (command_queue s)
                                     else command_queue s);
                              cq2 = AList.map_entry k (\<lambda>q. q @ [cmd]) cq1
                          in (Queued uuid, s\<lparr>command_queue := cq2\<rparr>)))))))"

text \<open>\<^verbatim>\<open>get_commands\<close>: the device id is the str of the URL.\<close>

definition get_commands :: "string \<Rightarrow> datetime \<Rightarrow> state \<Rightarrow> response \<times> state" where
  "get_commands device_id now s =
     (let s1 = s\<lparr>device_last_seen := AList.update device_id now (device_last_seen s)\<rparr>
      in case map_of (command_queue s1) (KStr device_id) of
        None \<Rightarrow> (Commands [], s1)
      | Some q \<Rightarrow>
         if q = [] then (Commands [], s1)
         else (Commands q,
               s1\<lparr>command_queue := AList.update (KStr device_id) [] (command_queue s1)\<rparr>))"

text \<open>
  \<^verbatim>\<open>os.path.join(a, b)\<close> on POSIX: an absolute second component replaces the first.
\<close>

definition path_join :: "string \<Rightarrow> string \<Rightarrow> string" where
  "path_join a b =
     (case b of
        [] \<Rightarrow> (if a = [] \<or> last a = CHR ''/'' then a else a @ ''/'')
      | c # cs \<Rightarrow>
         if c = CHR ''/'' then b
         else if a = [] \<or> last a = CHR ''/'' then a @ b
         else a @ ''/'' @ b)"

text \<open>
  \<^verbatim>\<open>file.save(file_path)\<close> opens the path for writing. The only directory the code
  ever makes is \<^verbatim>\<open>uploads\<close>, so the file opens when its name is a plain file name of at
  most 255 bytes. A name with a directory part, with a NUL or of more bytes raises
  (FileNotFoundError, ValueError, OSError) before a byte is written and before the
  result is stored, and nothing catches it: status 500.
\<close>

definition can_save :: "string \<Rightarrow> bool" where
  "can_save name \<longleftrightarrow> CHR ''/'' \<notin> set name \<and> CHR 0x00 \<notin> set name \<and> length name \<le> 255"

text \<open>
  \<^verbatim>\<open>post_result\<close>. The request carries the upload \<^verbatim>\<open>request.files['file']\<close>, if there
  is one, as its file name and its bytes (an absent file name is the empty one), and the
  value of \<^verbatim>\<open>request.json\<close> (\<open>JNull\<close> when there is none).
\<close>

definition post_result_json :: "string \<Rightarrow> json \<Rightarrow> datetime \<Rightarrow> state \<Rightarrow> response \<times> state" where
  "post_result_json command_id data now s =
     (if truthy data
      then (ResultStored,
            s\<lparr>results_store := AList.update command_id (DataResult data now) (results_store s)\<rparr>)
      else (BadRequest ''No data or file provided'', s))"

definition post_result ::
  "string \<Rightarrow> (string \<times> string) option \<Rightarrow> json \<Rightarrow> datetime \<Rightarrow> state \<Rightarrow> response \<times> state" where
  "post_result command_id file data now s =
     (case file of
        None \<Rightarrow> post_result_json command_id data now s
      | Some (filename, content) \<Rightarrow>
         if filename \<noteq> [] then
           (let name = command_id @ ''_'' @ filename;
                file_path = path_join ''uploads'' name
            in if can_save name
               then (FileUploaded,
                     s\<lparr>uploads := AList.update file_path content (uploads s),
                       results_store := AList.update command_id
                          (FileResult file_path filename now) (results_store s)\<rparr>)
               else (ServerError, s))
         else post_result_json command_id data now s)"

text \<open>
  \<^verbatim>\<open>get_result\<close>. \<^verbatim>\<open>send_file\<close> answers with the bytes found at the path under the
  download name; a path with no file under it is a FileNotFoundError, status 500.
\<close>

definition get_result :: "string \<Rightarrow> state \<Rightarrow> response \<times> state" where
  "get_result command_id s =
     (case map_of (results_store s) command_id of
        None \<Rightarrow> (NotFound ''Result not found or expired'', s)
      | Some (FileResult file_path filename t) \<Rightarrow>
         (case map_of (uploads s) file_path of
            None \<Rightarrow> (ServerError, s)
          | Some content \<Rightarrow> (Attachment content filename, s))
      | Some (DataResult data t) \<Rightarrow> (JsonBody data, s))"

text \<open>
  \<^verbatim>\<open>home\<close> reads the clock once for every item of \<^verbatim>\<open>device_last_seen\<close>, inside the
  comprehension: \<open>clock i\<close> is the reading taken at item \<open>i\<close>.
\<close>

definition home :: "(nat \<Rightarrow> datetime) \<Rightarrow> state \<Rightarrow> response \<times> state" where
  "home clock s =
     (Home (length (filter (\<lambda>(i, (d, t)). clock i - t < DEVICE_TIMEOUT)
                      (enumerate 0 (device_last_seen s)))), s)"

text \<open>
  \<^verbatim>\<open>int(delta.total_seconds())\<close>: the whole seconds of a timedelta, rounded towards
  zero (the quotient is exact in a float for every timedelta of less than thirty years).
\<close>

definition whole_seconds :: "timedelta \<Rightarrow> int" where
  "whole_seconds d = (if 0 \<le> d then d div 1000000 else - ((- d) div 1000000))"

definition list_devices :: "datetime \<Rightarrow> state \<Rightarrow> response \<times> state" where
  "list_devices now s =
     (Devices (map (\<lambda>(device_id, timestamp).
                 (device_id, \<lparr>last_seen = timestamp,
                              seconds_ago = whole_seconds (now - timestamp),
                              online = (now - timestamp < DEVICE_TIMEOUT)\<rparr>))
               (device_last_seen s)), s)"

definition health :: "datetime \<Rightarrow> state \<Rightarrow> response \<times> state" where
  "health now s = (Healthy now, s)"

section \<open>The sweeper\<close>

text \<open>
  One pass of the loop of \<^verbatim>\<open>cleanup_old_data\<close>, after the sleep, at clock reading
  \<open>now\<close>. \<^verbatim>\<open>os.remove\<close> of a path with no file raises and the \<^verbatim>\<open>except\<close> swallows
  it. \<^verbatim>\<open>results_store[k]\<close> of a key that is gone is a KeyError nothing catches: the
  pass stops there (\<open>False\<close>) with the stores as they are.
\<close>

definition expired :: "datetime \<Rightarrow> state \<Rightarrow> string list" where
  "expired now s =
     map fst (filter (\<lambda>(k, v). now - res_timestamp v > RESULT_EXPIRY) (results_store s))"

fun remove_expired :: "string list \<Rightarrow> state \<Rightarrow> bool \<times> state" where
  "remove_expired [] s = (True, s)"
| "remove_expired (k # ks) s =
     (case map_of (results_store s) k of
        None \<Rightarrow> (False, s)
      | Some v \<Rightarrow>
         (let s1 = (case v of
                      FileResult file_path filename t \<Rightarrow>
                        s\<lparr>uploads := AList.delete file_path (uploads s)\<rparr>
                    | DataResult data t \<Rightarrow> s)
          in remove_expired ks (s1\<lparr>results_store := AList.delete k (results_store s1)\<rparr>)))"

text \<open>The pass answers with the number it prints, or with \<open>None\<close> when it died.\<close>

definition cleanup_pass :: "datetime \<Rightarrow> state \<Rightarrow> nat option \<times> state" where
  "cleanup_pass now s =
     (let ks = expired now s; (ok, s') = remove_expired ks s
      in (if ok then Some (length ks) else None, s'))"

section \<open>Runs of the service\<close>

text \<open>
  The requests are served one after the other, each handler as one step, the passes of
  the sweeper between them. Two threads inside one handler at the same time are not
  part of this model.
\<close>

datatype request =
    PostCommand json string datetime
  | GetCommands string datetime
  | PostResult string "(string \<times> string) option" json datetime
  | GetResult string
  | GetHome "nat \<Rightarrow> datetime"
  | ListDevices datetime
  | Health datetime
  | Sweep datetime

datatype outcome = Response response | Swept nat | SweeperDied

fun step :: "request \<Rightarrow> state \<Rightarrow> outcome \<times> state" where
  "step (PostCommand data uuid now) s = (let (r, s') = post_command data uuid now s in (Response r, s'))"
| "step (GetCommands device_id now) s = (let (r, s') = get_commands device_id now s in (Response r, s'))"
| "step (PostResult command_id file data now) s =
     (let (r, s') = post_result command_id file data now s in (Response r, s'))"
| "step (GetResult command_id) s = (let (r, s') = get_result command_id s in (Response r, s'))"
| "step (GetHome clock) s = (let (r, s') = home clock s in (Response r, s'))"
| "step (ListDevices now) s = (let (r, s') = list_devices now s in (Response r, s'))"
| "step (Health now) s = (let (r, s') = health now s in (Response r, s'))"
| "step (Sweep now) s =
     (case cleanup_pass now s of
        (Some n, s') \<Rightarrow> (Swept n, s')
      | (None, s') \<Rightarrow> (SweeperDied, s'))"

fun run :: "request list \<Rightarrow> state \<Rightarrow> outcome list \<times> state" where
  "run [] s = ([], s)"
| "run (r # rs) s =
     (let (out, s1) = step r s; (outs, s2) = run rs s1 in (out # outs, s2))"

section \<open>What a run shows\<close>

text \<open>The queue of a key, empty when the key is absent.\<close>

definition queue_of :: "state \<Rightarrow> pykey \<Rightarrow> command list" where
  "queue_of s k = (case map_of (command_queue s) k of None \<Rightarrow> [] | Some q \<Rightarrow> q)"

text \<open>The answers to the polls of device \<open>d\<close> in a run, in the order of the run.\<close>

fun drains :: "string \<Rightarrow> request list \<Rightarrow> outcome list \<Rightarrow> command list list" where
  "drains d (GetCommands d' now # rs) (Response (Commands cmds) # outs) =
     (if d' = d then cmds # drains d rs outs else drains d rs outs)"
| "drains d (r # rs) (out # outs) = drains d rs outs"
| "drains d [] outs = []"
| "drains d rs [] = []"

text \<open>
  The command a request puts on the queue of key \<open>k\<close>: what \<open>post_command\<close> leaves
  there when it starts from empty stores.
\<close>

definition enqueued_by :: "request \<Rightarrow> pykey \<Rightarrow> command list" where
  "enqueued_by r k =
     (case r of
        PostCommand data uuid now \<Rightarrow> queue_of (snd (post_command data uuid now init_state)) k
      | _ \<Rightarrow> [])"

definition enqueues :: "pykey \<Rightarrow> request list \<Rightarrow> command list" where
  "enqueues k rs = concat (map (\<lambda>r. enqueued_by r k) rs)"

text \<open>The clock readings of the polls of device \<open>d\<close> in a run.\<close>

fun poll_times :: "string \<Rightarrow> request list \<Rightarrow> datetime list" where
  "poll_times d [] = []"
| "poll_times d (GetCommands d' now # rs) =
     (if d' = d then now # poll_times d rs else poll_times d rs)"
| "poll_times d (r # rs) = poll_times d rs"



text \<open>
  The test of \<open>post_result\<close> for an upload: a file part is there and its file name is not
  empty.
\<close>

definition named_blob :: "(string \<times> string) option \<Rightarrow> bool" where
  "named_blob file = (case file of None \<Rightarrow> False | Some (filename, content) \<Rightarrow> filename \<noteq> [])"

section \<open>Polling\<close>

lemma get_commands_response:
  "fst (get_commands d now s) = Commands (queue_of s (KStr d))"
  by (simp add: get_commands_def queue_of_def Let_def split: option.splits)

lemma get_commands_last_seen:
  "map_of (device_last_seen (snd (get_commands d now s))) d' =
     (if d' = d then Some now else map_of (device_last_seen s) d')"
  by (simp add: get_commands_def Let_def update_conv' split: option.splits)

lemma get_commands_queue:
  "queue_of (snd (get_commands d now s)) k = (if k = KStr d then [] else queue_of s k)"
  by (auto simp add: get_commands_def queue_of_def Let_def update_conv' split: option.splits)

lemma get_commands_results: "results_store (snd (get_commands d now s)) = results_store s"
  by (simp add: get_commands_def Let_def split: option.splits)

lemma get_commands_uploads: "uploads (snd (get_commands d now s)) = uploads s"
  by (simp add: get_commands_def Let_def split: option.splits)

text \<open>
  C8. A poll always answers with a list of commands, never with an error: the queue of
  the device, which is the empty list when the device has no queue or an empty one. Every
  poll, also one that answers with nothing, records the clock reading as the last time
  the device was seen.
\<close>

theorem get_commands_never_fails:
  "fst (get_commands d now s) = Commands (queue_of s (KStr d)) \<and>
   map_of (device_last_seen (snd (get_commands d now s))) d = Some now \<and>
   (map_of (command_queue s) (KStr d) = None \<or> map_of (command_queue s) (KStr d) = Some []
      \<longrightarrow> fst (get_commands d now s) = Commands [])"
  by (auto simp add: get_commands_response get_commands_last_seen queue_of_def)

theorem get_commands_never_fails_witness:
  "map_of (command_queue init_state) (KStr ''dev1'') = None \<and>
   fst (get_commands ''dev1'' 5 init_state) = Commands [] \<and>
   map_of (device_last_seen (snd (get_commands ''dev1'' 5 init_state))) ''dev1'' = Some 5"
  using get_commands_never_fails [of "''dev1''" 5 init_state]
  by (simp add: init_state_def queue_of_def)

section \<open>Enqueueing\<close>

lemma map_of_append_entry:
  "map_of (AList.map_entry k f (if map_of al k = None then AList.update k [] al else al)) k'
     = (if k' = k then Some (f (case map_of al k of None \<Rightarrow> [] | Some q \<Rightarrow> q)) else map_of al k')"
  by (auto simp add: map_of_map_entry update_conv' split: option.splits)

lemma post_command_dict:
  "post_command (JDict kvs) uuid now s =
     (case map_of kvs ''device_id'' of
        None \<Rightarrow> (BadRequest ''Missing device_id or action'', s)
      | Some dev \<Rightarrow>
         (case map_of kvs ''action'' of
            None \<Rightarrow> (BadRequest ''Missing device_id or action'', s)
          | Some act \<Rightarrow>
             (case hash_key dev of
                None \<Rightarrow> (ServerError, s)
              | Some k \<Rightarrow>
                 (Queued uuid,
                  s\<lparr>command_queue :=
                      AList.map_entry k
                        (\<lambda>q. q @ [\<lparr>cmd_id = uuid, cmd_action = act,
                                   cmd_params = dict_get (JDict kvs) ''params'' (JDict []),
                                   cmd_timestamp = now\<rparr>])
                        (if map_of (command_queue s) k = None
                         then AList.update k [] (command_queue s)
                         else command_queue s)\<rparr>))))"
  by (cases kvs) (simp_all add: post_command_def Let_def split: option.splits)

lemma post_command_other:
  "\<forall>kvs. data \<noteq> JDict kvs \<Longrightarrow>
     snd (post_command data uuid now s) = s \<and>
     (fst (post_command data uuid now s) = ServerError \<and> truthy data \<and>
        (py_in ''device_id'' data = Some True \<longrightarrow> py_in ''action'' data \<noteq> Some False) \<and>
        py_in ''device_id'' data \<noteq> Some False
      \<or> fst (post_command data uuid now s) = BadRequest ''Missing device_id or action'' \<and>
        (\<not> truthy data \<or> py_in ''device_id'' data = Some False \<or>
         py_in ''device_id'' data = Some True \<and> py_in ''action'' data = Some False))"
  by (cases data) (auto simp add: post_command_def split: option.splits bool.splits)

lemma post_command_queue:
  "queue_of (snd (post_command data uuid now s)) k =
     queue_of s k @ queue_of (snd (post_command data uuid now init_state)) k"
proof (cases "\<exists>kvs. data = JDict kvs")
  case True
  then obtain kvs where d: "data = JDict kvs" by blast
  show ?thesis
    unfolding d post_command_dict queue_of_def
    by (simp add: init_state_def map_of_append_entry split: option.splits)
next
  case False
  then have "\<forall>kvs. data \<noteq> JDict kvs" by simp
  from post_command_other[OF this]
  show ?thesis by (simp add: queue_of_def init_state_def)
qed

section \<open>Results\<close>

lemma get_result_state: "snd (get_result c s) = s"
  by (simp add: get_result_def split: option.splits result.splits)

text \<open>
  C7. \<open>get_result\<close> leaves every store as it is, so a second fetch gives the same answer;
  it answers 404 exactly when the store has no entry under the command id, which is the
  case of an id that was never submitted and of one the sweeper removed; and it answers
  with the stored data, or with the bytes and the name of the stored file.
\<close>

theorem get_result_reads:
  "snd (get_result c s) = s \<and>
   ((\<exists>m. fst (get_result c s) = NotFound m) \<longleftrightarrow> map_of (results_store s) c = None) \<and>
   (\<forall>d t. map_of (results_store s) c = Some (DataResult d t) \<longrightarrow> fst (get_result c s) = JsonBody d) \<and>
   (\<forall>p f t b. map_of (results_store s) c = Some (FileResult p f t) \<and> map_of (uploads s) p = Some b
       \<longrightarrow> fst (get_result c s) = Attachment b f) \<and>
   get_result c (snd (get_result c s)) = get_result c s"
  by (auto simp add: get_result_def split: option.splits result.splits)

theorem get_result_reads_witness:
  "map_of (results_store
      \<lparr>command_queue = [], results_store = [(''c1'', DataResult (JDict [(''pong'', JBool True)]) 3)],
       device_last_seen = [], uploads = []\<rparr>) ''c1''
     = Some (DataResult (JDict [(''pong'', JBool True)]) 3) \<and>
   fst (get_result ''c1''
      \<lparr>command_queue = [], results_store = [(''c1'', DataResult (JDict [(''pong'', JBool True)]) 3)],
       device_last_seen = [], uploads = []\<rparr>)
     = JsonBody (JDict [(''pong'', JBool True)]) \<and>
   (\<exists>m. fst (get_result ''c2''
      \<lparr>command_queue = [], results_store = [(''c1'', DataResult (JDict [(''pong'', JBool True)]) 3)],
       device_last_seen = [], uploads = []\<rparr>) = NotFound m)"
  using get_result_reads [of "''c1''"
      "\<lparr>command_queue = [], results_store = [(''c1'', DataResult (JDict [(''pong'', JBool True)]) 3)],
        device_last_seen = [], uploads = []\<rparr>"]
    get_result_reads [of "''c2''"
      "\<lparr>command_queue = [], results_store = [(''c1'', DataResult (JDict [(''pong'', JBool True)]) 3)],
        device_last_seen = [], uploads = []\<rparr>"]
  by simp

text \<open>
  C3, as the code has it. \<open>post_result\<close> answers 400 exactly when the request has neither
  an upload with a non-empty file name nor a truthy JSON body. An upload with a file name
  is accepted whatever its bytes are, and a body that is \<^verbatim>\<open>null\<close>, \<^verbatim>\<open>false\<close>, 0, an
  empty string, list or object counts as no body. An upload whose file can be saved is
  saved and stored under the command id, and a truthy body without such an upload is
  stored under it, each with an acknowledgement. An upload whose file cannot be saved is
  a storage failure: the answer is an error that is no 400 and nothing is stored.
\<close>

theorem post_result_invalid_iff:
  "((\<exists>m. fst (post_result c fl data now s) = BadRequest m) \<longleftrightarrow>
      \<not> named_blob fl \<and> \<not> truthy data) \<and>
   (\<forall>f b. fl = Some (f, b) \<and> f \<noteq> [] \<and> can_save (c @ ''_'' @ f) \<longrightarrow>
      fst (post_result c fl data now s) = FileUploaded \<and>
      map_of (results_store (snd (post_result c fl data now s))) c =
        Some (FileResult (path_join ''uploads'' (c @ ''_'' @ f)) f now) \<and>
      map_of (uploads (snd (post_result c fl data now s))) (path_join ''uploads'' (c @ ''_'' @ f)) =
        Some b) \<and>
   (\<forall>f b. fl = Some (f, b) \<and> f \<noteq> [] \<and> \<not> can_save (c @ ''_'' @ f) \<longrightarrow>
      post_result c fl data now s = (ServerError, s)) \<and>
   (\<not> named_blob fl \<and> truthy data \<longrightarrow>
      fst (post_result c fl data now s) = ResultStored \<and>
      map_of (results_store (snd (post_result c fl data now s))) c = Some (DataResult data now))"
  by (auto simp add: post_result_def post_result_json_def named_blob_def Let_def update_conv'
       split: option.splits prod.splits)

theorem post_result_invalid_iff_witness:
  "\<not> named_blob None \<and> truthy (JDict [(''pong'', JBool True)]) \<and>
   fst (post_result ''c1'' None (JDict [(''pong'', JBool True)]) 3 init_state) = ResultStored \<and>
   map_of (results_store (snd (post_result ''c1'' None (JDict [(''pong'', JBool True)]) 3 init_state)))
      ''c1'' = Some (DataResult (JDict [(''pong'', JBool True)]) 3) \<and>
   can_save (''c2'' @ ''_'' @ ''a.txt'') \<and>
   fst (post_result ''c2'' (Some (''a.txt'', ''AAA'')) JNull 3 init_state) = FileUploaded \<and>
   map_of (uploads (snd (post_result ''c2'' (Some (''a.txt'', ''AAA'')) JNull 3 init_state)))
      ''uploads/c2_a.txt'' = Some ''AAA'' \<and>
   \<not> can_save (''c3'' @ ''_'' @ ''sub/a.txt'') \<and>
   post_result ''c3'' (Some (''sub/a.txt'', ''AAA'')) JNull 3 init_state = (ServerError, init_state)"
  using post_result_invalid_iff [of "''c1''" None "JDict [(''pong'', JBool True)]" 3 init_state]
    post_result_invalid_iff [of "''c2''" "Some (''a.txt'', ''AAA'')" JNull 3 init_state]
    post_result_invalid_iff [of "''c3''" "Some (''sub/a.txt'', ''AAA'')" JNull 3 init_state]
  by (simp add: named_blob_def can_save_def path_join_def)

text \<open>
  C3 as stated fails: an upload with a file name and no bytes is stored; the empty
  object as body is refused; and an upload under a file name with a directory part is
  there with its bytes and is neither stored nor refused with a 400.
\<close>

theorem post_result_invalid_counterexample:
  "fst (post_result ''c1'' (Some (''a.txt'', [])) JNull 7 init_state) = FileUploaded \<and>
   fst (post_result ''c1'' None (JDict []) 7 init_state) = BadRequest ''No data or file provided'' \<and>
   post_result ''c1'' (Some (''sub/a.txt'', ''AAA'')) JNull 7 init_state = (ServerError, init_state)"
  by (simp add: post_result_def post_result_json_def Let_def can_save_def)

text \<open>
  Last write wins: when a second submit under a command id is stored, a fetch answers
  with it.
\<close>

lemma post_result_last_write_wins:
  "fst (post_result c fl2 data2 t2 s1) = FileUploaded \<or>
   fst (post_result c fl2 data2 t2 s1) = ResultStored \<Longrightarrow>
     fst (get_result c (snd (post_result c fl2 data2 t2 s1))) =
       (case fl2 of
          None \<Rightarrow> JsonBody data2
        | Some (f, b) \<Rightarrow> if f \<noteq> [] then Attachment b f else JsonBody data2)"
  by (auto simp add: post_result_def post_result_json_def get_result_def Let_def
        update_conv' split: option.splits prod.splits if_splits)

text \<open>
  C2, on the code. A second upload under a command id replaces the entry, and a fetch
  answers with the second upload. The file of the first upload is not released, neither
  at the overwrite nor later: after the uploads of \<^verbatim>\<open>a.txt\<close> and \<^verbatim>\<open>b.txt\<close> under
  \<^verbatim>\<open>c1\<close> the directory holds both files, and the pass of the sweeper that removes the
  entry two hours later removes the second file and leaves the first, which no entry
  names any more.
\<close>

theorem post_result_overwrite_keeps_file:
  "uploads (snd (post_result ''c1'' (Some (''b.txt'', ''BBB'')) JNull 2
             (snd (post_result ''c1'' (Some (''a.txt'', ''AAA'')) JNull 1 init_state))))
     = [(''uploads/c1_a.txt'', ''AAA''), (''uploads/c1_b.txt'', ''BBB'')] \<and>
   results_store (snd (post_result ''c1'' (Some (''b.txt'', ''BBB'')) JNull 2
             (snd (post_result ''c1'' (Some (''a.txt'', ''AAA'')) JNull 1 init_state))))
     = [(''c1'', FileResult ''uploads/c1_b.txt'' ''b.txt'' 2)] \<and>
   fst (get_result ''c1'' (snd (post_result ''c1'' (Some (''b.txt'', ''BBB'')) JNull 2
             (snd (post_result ''c1'' (Some (''a.txt'', ''AAA'')) JNull 1 init_state)))))
     = Attachment ''BBB'' ''b.txt'' \<and>
   cleanup_pass (2 * 3600 * 1000000)
     (snd (post_result ''c1'' (Some (''b.txt'', ''BBB'')) JNull 2
             (snd (post_result ''c1'' (Some (''a.txt'', ''AAA'')) JNull 1 init_state))))
     = (Some 1, \<lparr>command_queue = [], results_store = [], device_last_seen = [],
                 uploads = [(''uploads/c1_a.txt'', ''AAA'')]\<rparr>)"
  by (simp add: post_result_def get_result_def Let_def init_state_def path_join_def can_save_def
        cleanup_pass_def expired_def RESULT_EXPIRY_def)

section \<open>The sweep\<close>

lemma delete_filter: "AList.delete k al = filter (\<lambda>(k', v). k' \<noteq> k) al"
  by (induction al) (auto simp add: AList.delete_eq)

lemma remove_expired_queue: "command_queue (snd (remove_expired ks s)) = command_queue s"
  by (induction ks s rule: remove_expired.induct) (auto simp: Let_def split: option.splits result.splits)

lemma remove_expired_seen: "device_last_seen (snd (remove_expired ks s)) = device_last_seen s"
  by (induction ks s rule: remove_expired.induct) (auto simp: Let_def split: option.splits result.splits)

lemma remove_expired_results:
  "set ks \<subseteq> fst ` set (results_store s) \<Longrightarrow> distinct ks \<Longrightarrow>
     fst (remove_expired ks s) \<and>
     results_store (snd (remove_expired ks s)) = filter (\<lambda>(k, v). k \<notin> set ks) (results_store s)"
proof (induction ks arbitrary: s)
  case Nil
  then show ?case by simp
next
  case (Cons k ks)
  from Cons.prems(1) obtain v where v: "map_of (results_store s) k = Some v"
    by (cases "map_of (results_store s) k") (auto simp add: map_of_eq_None_iff)
  define s1 where "s1 = (case v of FileResult file_path filename t \<Rightarrow> s\<lparr>uploads := AList.delete file_path (uploads s)\<rparr>
                    | DataResult data t \<Rightarrow> s)"
  have rs1: "results_store s1 = results_store s"
    by (simp add: s1_def split: result.splits)
  define s2 where "s2 = s1\<lparr>results_store := AList.delete k (results_store s1)\<rparr>"
  have rs2: "results_store s2 = filter (\<lambda>(k', v). k' \<noteq> k) (results_store s)"
    by (simp add: s2_def rs1 delete_filter)
  have step: "remove_expired (k # ks) s = remove_expired ks s2"
    by (simp add: v s1_def s2_def Let_def)
  have sub: "set ks \<subseteq> fst ` set (results_store s2)"
  proof
    fix x assume x: "x \<in> set ks"
    with Cons.prems have "x \<noteq> k" "x \<in> fst ` set (results_store s)" by auto
    then show "x \<in> fst ` set (results_store s2)"
      unfolding rs2 by force
  qed
  from Cons.prems(2) have "distinct ks" by simp
  from Cons.IH[OF sub this]
  show ?case
    unfolding step rs2 by (auto simp add: filter_filter intro!: filter_cong)
qed

lemma expired_sub: "set (expired now s) \<subseteq> fst ` set (results_store s)"
  by (auto simp add: expired_def)

lemma expired_distinct: "distinct (map fst (results_store s)) \<Longrightarrow> distinct (expired now s)"
  by (simp add: expired_def distinct_map_filter)

lemma expired_mem:
  "distinct (map fst (results_store s)) \<Longrightarrow> (k, v) \<in> set (results_store s) \<Longrightarrow>
     k \<in> set (expired now s) \<longleftrightarrow> now - res_timestamp v > RESULT_EXPIRY"
  by (force simp add: expired_def dest: eq_key_imp_eq_value)

text \<open>
  C5. From stores with distinct keys a pass of the sweeper ends without an exception and
  leaves in the result store exactly the entries it had whose age is at most one hour,
  in their order: an entry is removed if and only if the clock reading minus its
  timestamp is greater than \<open>RESULT_EXPIRY\<close>, so no entry of a smaller age is ever
  removed. The number it reports is the number of entries removed.
\<close>

theorem cleanup_pass_exact:
  assumes "wf_state s"
  shows "fst (cleanup_pass now s) = Some (length (expired now s)) \<and>
     results_store (snd (cleanup_pass now s)) =
       filter (\<lambda>(k, v). \<not> now - res_timestamp v > RESULT_EXPIRY) (results_store s) \<and>
     (\<forall>k v. map_of (results_store s) k = Some v \<longrightarrow>
        map_of (results_store (snd (cleanup_pass now s))) k =
          (if now - res_timestamp v > RESULT_EXPIRY then None else Some v))"
proof -
  from assms have d: "distinct (map fst (results_store s))" by (simp add: wf_state_def)
  note r = remove_expired_results[OF expired_sub expired_distinct[OF d], of now]
  have f: "filter (\<lambda>(k, v). k \<notin> set (expired now s)) (results_store s) =
      filter (\<lambda>(k, v). \<not> now - res_timestamp v > RESULT_EXPIRY) (results_store s)"
    by (rule filter_cong) (auto simp add: expired_mem[OF d])
  have a: "fst (cleanup_pass now s) = Some (length (expired now s))"
    using r by (simp add: cleanup_pass_def Let_def split_beta)
  have b: "results_store (snd (cleanup_pass now s)) =
       filter (\<lambda>(k, v). \<not> now - res_timestamp v > RESULT_EXPIRY) (results_store s)"
    using r f by (simp add: cleanup_pass_def Let_def split_beta)
  have c: "map_of (results_store (snd (cleanup_pass now s))) k =
          (if now - res_timestamp v > RESULT_EXPIRY then None else Some v)"
    if "map_of (results_store s) k = Some v" for k v
  proof -
    from that have m: "(k, v) \<in> set (results_store s)" by (rule map_of_SomeD)
    show ?thesis
    proof (cases "now - res_timestamp v > RESULT_EXPIRY")
      case True
      have "k \<notin> fst ` set (filter (\<lambda>(k, v). \<not> now - res_timestamp v > RESULT_EXPIRY) (results_store s))"
        using True d m by (auto dest: eq_key_imp_eq_value)
      then show ?thesis using True by (simp add: b map_of_eq_None_iff)
    next
      case False
      have "distinct (map fst (filter (\<lambda>(k, v). \<not> now - res_timestamp v > RESULT_EXPIRY) (results_store s)))"
        using d by (rule distinct_map_filter)
      moreover have "(k, v) \<in> set (filter (\<lambda>(k, v). \<not> now - res_timestamp v > RESULT_EXPIRY) (results_store s))"
        using m False by simp
      ultimately show ?thesis using False by (simp add: b)
    qed
  qed
  from a b c show ?thesis by blast
qed

text \<open>
  At a clock reading of 61 minutes an entry stored at minute 0 is 61 minutes old and is
  removed, and an entry stored at minute 2 is 59 minutes old and is kept.
\<close>

theorem cleanup_pass_exact_witness:
  "wf_state \<lparr>command_queue = [],
       results_store = [(''old'', DataResult (JInt 1) 0), (''new'', DataResult (JInt 2) (2 * 60 * 1000000))],
       device_last_seen = [], uploads = []\<rparr> \<and>
   cleanup_pass (61 * 60 * 1000000)
     \<lparr>command_queue = [],
       results_store = [(''old'', DataResult (JInt 1) 0), (''new'', DataResult (JInt 2) (2 * 60 * 1000000))],
       device_last_seen = [], uploads = []\<rparr>
   = (Some 1, \<lparr>command_queue = [],
       results_store = [(''new'', DataResult (JInt 2) (2 * 60 * 1000000))],
       device_last_seen = [], uploads = []\<rparr>)"
proof -
  have w: "wf_state \<lparr>command_queue = [],
       results_store = [(''old'', DataResult (JInt 1) 0), (''new'', DataResult (JInt 2) (2 * 60 * 1000000))],
       device_last_seen = [], uploads = []\<rparr>"
    by (simp add: wf_state_def)
  from cleanup_pass_exact [OF w, of "61 * 60 * 1000000"] w
  show ?thesis
    by (simp add: cleanup_pass_def expired_def RESULT_EXPIRY_def Let_def)
qed

section \<open>Liveness\<close>

lemma length_filter_enumerate:
  "length (filter (\<lambda>(i, x). Q x) (enumerate n xs)) = length (filter Q xs)"
  by (induction xs arbitrary: n) simp_all

lemma length_filter_card:
  assumes "distinct (map fst xs)"
  shows "length (filter (\<lambda>(d, t). P t) xs) = card {d. \<exists>t. map_of xs d = Some t \<and> P t}"
proof -
  have d: "distinct (map fst (filter (\<lambda>(d, t). P t) xs))"
    using assms by (rule distinct_map_filter)
  have "{d. \<exists>t. map_of xs d = Some t \<and> P t} = set (map fst (filter (\<lambda>(d, t). P t) xs))"
    using assms by (force simp add: map_of_eq_Some_iff)
  then show ?thesis
    using distinct_card[OF d] by simp
qed

lemma map_of_map_info:
  "map_of (map (\<lambda>(d, t). (d, f t)) xs) k = map_option f (map_of xs k)"
  by (induction xs) auto

text \<open>
  C6. A device is online if and only if the clock reading minus its last-seen time is
  less than \<open>DEVICE_TIMEOUT\<close>, strictly: this is the status \<open>list_devices\<close> gives it,
  and the number \<open>home\<close> reports, with one clock reading for all devices, is the number
  of devices for which it holds.
\<close>

theorem classify_online_iff:
  assumes "wf_state s" and "map_of (device_last_seen s) d = Some t"
  shows "(\<exists>ds i. fst (list_devices now s) = Devices ds \<and> map_of ds d = Some i \<and>
            last_seen i = t \<and> (online i \<longleftrightarrow> now - t < DEVICE_TIMEOUT)) \<and>
         fst (home (\<lambda>i. now) s) =
           Home (card {d'. \<exists>t'. map_of (device_last_seen s) d' = Some t' \<and> now - t' < DEVICE_TIMEOUT})"
proof -
  from assms(1) have dist: "distinct (map fst (device_last_seen s))"
    by (simp add: wf_state_def)
  have a: "\<exists>ds i. fst (list_devices now s) = Devices ds \<and> map_of ds d = Some i \<and>
            last_seen i = t \<and> (online i \<longleftrightarrow> now - t < DEVICE_TIMEOUT)"
    using assms(2)
    by (simp add: list_devices_def
          map_of_map_info[where f = "\<lambda>t. \<lparr>last_seen = t, seconds_ago = whole_seconds (now - t),
                                          online = (now - t < DEVICE_TIMEOUT)\<rparr>"])
  have "(\<lambda>(i, (d, t)). now - t < DEVICE_TIMEOUT) = (\<lambda>(i::nat, x::string \<times> int). (\<lambda>(d, t). now - t < DEVICE_TIMEOUT) x)"
    by auto
  then have b: "fst (home (\<lambda>i. now) s) =
           Home (card {d'. \<exists>t'. map_of (device_last_seen s) d' = Some t' \<and> now - t' < DEVICE_TIMEOUT})"
    by (simp add: home_def length_filter_enumerate length_filter_card[OF dist])
  from a b show ?thesis by blast
qed

text \<open>
  With the timeout of ten minutes, at a clock reading of 11 minutes the device seen at
  minute 0 is offline, the device seen at minute 2 (9 minutes ago) is online, and the
  count of online devices is 1.
\<close>

theorem classify_online_iff_witness:
  "wf_state \<lparr>command_queue = [], results_store = [],
       device_last_seen = [(''a'', 0), (''b'', 2 * 60 * 1000000)], uploads = []\<rparr> \<and>
   fst (list_devices (11 * 60 * 1000000)
     \<lparr>command_queue = [], results_store = [],
       device_last_seen = [(''a'', 0), (''b'', 2 * 60 * 1000000)], uploads = []\<rparr>)
   = Devices [(''a'', \<lparr>last_seen = 0, seconds_ago = 660, online = False\<rparr>),
              (''b'', \<lparr>last_seen = 2 * 60 * 1000000, seconds_ago = 540, online = True\<rparr>)] \<and>
   fst (home (\<lambda>i. 11 * 60 * 1000000)
     \<lparr>command_queue = [], results_store = [],
       device_last_seen = [(''a'', 0), (''b'', 2 * 60 * 1000000)], uploads = []\<rparr>)
   = Home 1"
proof -
  have w: "wf_state \<lparr>command_queue = [], results_store = [],
       device_last_seen = [(''a'', 0), (''b'', 2 * 60 * 1000000)], uploads = []\<rparr>"
    by (simp add: wf_state_def)
  have m: "map_of (device_last_seen \<lparr>command_queue = [], results_store = [],
       device_last_seen = [(''a'', 0), (''b'', 2 * 60 * 1000000)], uploads = []\<rparr>) ''a'' = Some 0"
    by simp
  from classify_online_iff [OF w m, of "11 * 60 * 1000000"] w
  show ?thesis
    by (simp add: list_devices_def home_def DEVICE_TIMEOUT_def whole_seconds_def enumerate_eq_zip
          upt_rec)
qed

section \<open>What each handler leaves alone\<close>

lemma post_result_queue: "command_queue (snd (post_result c file data now s)) = command_queue s"
  by (simp add: post_result_def post_result_json_def Let_def split: option.splits prod.splits)

lemma post_result_seen: "device_last_seen (snd (post_result c file data now s)) = device_last_seen s"
  by (simp add: post_result_def post_result_json_def Let_def split: option.splits prod.splits)

lemma post_result_others:
  "c' \<noteq> c \<Longrightarrow> map_of (results_store (snd (post_result c file data now s))) c' = map_of (results_store s) c'"
  by (simp add: post_result_def post_result_json_def Let_def update_conv' split: option.splits prod.splits)

lemma post_result_files:
  "(\<forall>f b. fl = Some (f, b) \<longrightarrow> p \<noteq> path_join ''uploads'' (c @ ''_'' @ f)) \<Longrightarrow>
     map_of (uploads (snd (post_result c fl data now s))) p = map_of (uploads s) p"
  by (auto simp add: post_result_def post_result_json_def Let_def update_conv'
        split: option.splits prod.splits)

lemma cleanup_pass_queue: "command_queue (snd (cleanup_pass now s)) = command_queue s"
  by (simp add: cleanup_pass_def Let_def split_beta remove_expired_queue)

lemma cleanup_pass_seen: "device_last_seen (snd (cleanup_pass now s)) = device_last_seen s"
  by (simp add: cleanup_pass_def Let_def split_beta remove_expired_seen)

lemma post_command_seen: "device_last_seen (snd (post_command data uuid now s)) = device_last_seen s"
proof (cases "\<exists>kvs. data = JDict kvs")
  case True
  then obtain kvs where d: "data = JDict kvs" by blast
  show ?thesis unfolding d post_command_dict by (simp split: option.splits)
next
  case False
  then have "\<forall>kvs. data \<noteq> JDict kvs" by simp
  from post_command_other[OF this] show ?thesis by simp
qed

lemma post_command_results: "results_store (snd (post_command data uuid now s)) = results_store s"
proof (cases "\<exists>kvs. data = JDict kvs")
  case True
  then obtain kvs where d: "data = JDict kvs" by blast
  show ?thesis unfolding d post_command_dict by (simp split: option.splits)
next
  case False
  then have "\<forall>kvs. data \<noteq> JDict kvs" by simp
  from post_command_other[OF this] show ?thesis by simp
qed

lemma post_command_uploads: "uploads (snd (post_command data uuid now s)) = uploads s"
proof (cases "\<exists>kvs. data = JDict kvs")
  case True
  then obtain kvs where d: "data = JDict kvs" by blast
  show ?thesis unfolding d post_command_dict by (simp split: option.splits)
next
  case False
  then have "\<forall>kvs. data \<noteq> JDict kvs" by simp
  from post_command_other[OF this] show ?thesis by simp
qed

lemma post_command_others:
  assumes "\<forall>dev. subscript data ''device_id'' = Some dev \<longrightarrow> hash_key dev \<noteq> Some k'"
  shows "map_of (command_queue (snd (post_command data uuid now s))) k' = map_of (command_queue s) k'"
proof (cases "\<exists>kvs. data = JDict kvs")
  case True
  then obtain kvs where d: "data = JDict kvs" by blast
  show ?thesis using assms unfolding d post_command_dict
    by (auto simp add: map_of_append_entry split: option.splits)
next
  case False
  then have "\<forall>kvs. data \<noteq> JDict kvs" by simp
  from post_command_other[OF this] show ?thesis by simp
qed

lemma get_commands_others:
  "k' \<noteq> KStr d \<Longrightarrow> map_of (command_queue (snd (get_commands d now s))) k' = map_of (command_queue s) k'"
  by (simp add: get_commands_def Let_def update_conv' split: option.splits)

text \<open>
  What holds of every handler: \<open>post_command\<close> leaves the result store, the last-seen
  records and the upload directory as they are, and the queue of every key other than
  the device id of its body; \<open>get_commands\<close> for a device leaves the result store and
  the upload directory as they are, and the queue and the last-seen record of every
  other device; \<open>post_result\<close> for a command id leaves the queues and the last-seen
  records as they are, the entry of every other command id, and every file but the one
  it saves; \<open>get_result\<close> changes nothing.
\<close>

lemma handlers_frame:
  "(results_store (snd (post_command data uuid now s)) = results_store s \<and>
    device_last_seen (snd (post_command data uuid now s)) = device_last_seen s \<and>
    uploads (snd (post_command data uuid now s)) = uploads s \<and>
    (\<forall>k'. (\<forall>dev. subscript data ''device_id'' = Some dev \<longrightarrow> hash_key dev \<noteq> Some k') \<longrightarrow>
       map_of (command_queue (snd (post_command data uuid now s))) k' = map_of (command_queue s) k')) \<and>
   (results_store (snd (get_commands d now s)) = results_store s \<and>
    uploads (snd (get_commands d now s)) = uploads s \<and>
    (\<forall>k'. k' \<noteq> KStr d \<longrightarrow>
       map_of (command_queue (snd (get_commands d now s))) k' = map_of (command_queue s) k') \<and>
    (\<forall>d'. d' \<noteq> d \<longrightarrow>
       map_of (device_last_seen (snd (get_commands d now s))) d' = map_of (device_last_seen s) d')) \<and>
   (command_queue (snd (post_result c fl body now s)) = command_queue s \<and>
    device_last_seen (snd (post_result c fl body now s)) = device_last_seen s \<and>
    (\<forall>c'. c' \<noteq> c \<longrightarrow>
       map_of (results_store (snd (post_result c fl body now s))) c' = map_of (results_store s) c') \<and>
    (\<forall>p. (\<forall>f b. fl = Some (f, b) \<longrightarrow> p \<noteq> path_join ''uploads'' (c @ ''_'' @ f)) \<longrightarrow>
       map_of (uploads (snd (post_result c fl body now s))) p = map_of (uploads s) p)) \<and>
   snd (get_result c s) = s"
  by (simp add: post_command_results post_command_seen post_command_uploads post_command_others
        get_commands_results get_commands_uploads get_commands_others get_commands_last_seen
        post_result_queue post_result_seen post_result_others post_result_files get_result_state)

text \<open>
  C10, on the code. The file an upload is saved under is named by the command id, an
  underscore and the file name, and two command ids can meet in one name: \<^verbatim>\<open>a\<close> with
  the file name \<^verbatim>\<open>b_c\<close> and \<^verbatim>\<open>a_b\<close> with the file name \<^verbatim>\<open>c\<close> are both saved
  under \<^verbatim>\<open>uploads/a_b_c\<close>. The submit for \<^verbatim>\<open>a_b\<close> then changes the result of \<^verbatim>\<open>a\<close>:
  its entry is as it was, and the fetch of \<^verbatim>\<open>a\<close> answers with the bytes uploaded for
  \<^verbatim>\<open>a_b\<close>.
\<close>

theorem post_result_path_collision:
  "fst (get_result ''a'' (snd (post_result ''a'' (Some (''b_c'', ''XXX'')) JNull 1 init_state)))
     = Attachment ''XXX'' ''b_c'' \<and>
   fst (post_result ''a_b'' (Some (''c'', ''YYY'')) JNull 2
         (snd (post_result ''a'' (Some (''b_c'', ''XXX'')) JNull 1 init_state)))
     = FileUploaded \<and>
   results_store (snd (post_result ''a_b'' (Some (''c'', ''YYY'')) JNull 2
         (snd (post_result ''a'' (Some (''b_c'', ''XXX'')) JNull 1 init_state))))
     = [(''a'', FileResult ''uploads/a_b_c'' ''b_c'' 1), (''a_b'', FileResult ''uploads/a_b_c'' ''c'' 2)] \<and>
   fst (get_result ''a'' (snd (post_result ''a_b'' (Some (''c'', ''YYY'')) JNull 2
         (snd (post_result ''a'' (Some (''b_c'', ''XXX'')) JNull 1 init_state)))))
     = Attachment ''YYY'' ''b_c''"
  by (simp add: post_result_def get_result_def Let_def init_state_def path_join_def can_save_def)

section \<open>Runs: hand-over of the commands\<close>

lemma snd_step:
  "snd (step (PostCommand data uuid now) s) = snd (post_command data uuid now s)"
  "snd (step (GetCommands d now) s) = snd (get_commands d now s)"
  "snd (step (PostResult c file data now) s) = snd (post_result c file data now s)"
  "snd (step (GetResult c) s) = s"
  "snd (step (GetHome clock) s) = s"
  "snd (step (ListDevices now) s) = s"
  "snd (step (Health now) s) = s"
  "snd (step (Sweep now) s) = snd (cleanup_pass now s)"
  by (simp_all add: split_beta get_result_state home_def list_devices_def health_def
        split: option.splits)

lemma fst_step_poll:
  "fst (step (GetCommands d now) s) = Response (Commands (queue_of s (KStr d)))"
  by (simp add: split_beta get_commands_response)

lemma queue_of_cong: "command_queue s' = command_queue s \<Longrightarrow> queue_of s' k = queue_of s k"
  by (simp add: queue_of_def)

lemma step_queue:
  "queue_of (snd (step r s)) k =
     (case r of GetCommands d now \<Rightarrow> if k = KStr d then [] else queue_of s k
              | _ \<Rightarrow> queue_of s k @ enqueued_by r k)"
proof (cases r)
  case (PostCommand data uuid now)
  then show ?thesis
    using post_command_queue[of data uuid now s k]
    by (simp add: snd_step enqueued_by_def del: step.simps)
next
  case (GetCommands d now)
  then show ?thesis
    by (simp add: snd_step get_commands_queue del: step.simps)
next
  case (PostResult c fl data now)
  then show ?thesis
    by (simp add: snd_step enqueued_by_def queue_of_cong[OF post_result_queue] del: step.simps)
next
  case (Sweep now)
  then show ?thesis
    by (simp add: snd_step enqueued_by_def queue_of_cong[OF cleanup_pass_queue] del: step.simps)
qed (simp_all add: snd_step enqueued_by_def del: step.simps)

lemma step_drain:
  "drains d [r] [fst (step r s)] =
     (case r of GetCommands d' now \<Rightarrow> if d' = d then [queue_of s (KStr d)] else [] | _ \<Rightarrow> [])"
  by (cases r) (simp_all add: fst_step_poll del: step.simps)

lemma drains_Cons:
  "drains d (r # rs) (out # outs) = drains d [r] [out] @ drains d rs outs"
  by (induction d "[r]" "[out]" rule: drains.induct) auto

lemma run_Cons:
  "run (r # rs) s = (fst (step r s) # fst (run rs (snd (step r s))), snd (run rs (snd (step r s))))"
  by (simp add: split_beta)

lemma length_run: "length (fst (run rs s)) = length rs"
  by (induction rs arbitrary: s) (simp_all add: split_beta)

lemma run_append:
  "run (rs1 @ rs2) s =
     (fst (run rs1 s) @ fst (run rs2 (snd (run rs1 s))), snd (run rs2 (snd (run rs1 s))))"
  by (induction rs1 arbitrary: s) (simp_all add: split_beta)

lemma drains_append:
  "length outs1 = length rs1 \<Longrightarrow>
     drains d (rs1 @ rs2) (outs1 @ outs2) = drains d rs1 outs1 @ drains d rs2 outs2"
proof (induction rs1 arbitrary: outs1)
  case Nil
  then show ?case by simp
next
  case (Cons r rs1)
  then obtain out outs where o: "outs1 = out # outs" by (cases outs1) auto
  with Cons.prems have l: "length outs = length rs1" by simp
  have "drains d ((r # rs1) @ rs2) (outs1 @ outs2)
      = drains d [r] [out] @ drains d (rs1 @ rs2) (outs @ outs2)"
    unfolding o append_Cons by (rule drains_Cons)
  also have "\<dots> = drains d [r] [out] @ drains d rs1 outs @ drains d rs2 outs2"
    by (simp only: Cons.IH[OF l])
  also have "\<dots> = drains d (r # rs1) outs1 @ drains d rs2 outs2"
    unfolding o by (simp only: drains_Cons[of d r rs1 out outs] append_assoc)
  finally show ?case .
qed

lemma run_fifo:
  "concat (drains d rs (fst (run rs s))) @ queue_of (snd (run rs s)) (KStr d)
     = queue_of s (KStr d) @ enqueues (KStr d) rs"
proof (induction rs arbitrary: s)
  case Nil
  then show ?case by (simp add: enqueues_def)
next
  case (Cons r rs)
  have "concat (drains d (r # rs) (fst (run (r # rs) s))) @ queue_of (snd (run (r # rs) s)) (KStr d)
      = concat (drains d [r] [fst (step r s)]) @
        (concat (drains d rs (fst (run rs (snd (step r s))))) @ queue_of (snd (run rs (snd (step r s)))) (KStr d))"
    by (simp only: run_Cons fst_conv snd_conv drains_Cons[of d r rs] concat_append append_assoc)
  also have "\<dots> = concat (drains d [r] [fst (step r s)]) @ queue_of (snd (step r s)) (KStr d) @ enqueues (KStr d) rs"
    by (simp only: Cons.IH)
  also have "\<dots> = queue_of s (KStr d) @ enqueues (KStr d) (r # rs)"
    by (cases r) (simp_all add: step_drain step_queue enqueues_def enqueued_by_def del: step.simps)
  finally show ?case .
qed

lemma distinct_concat_disjoint:
  "distinct (concat xss) \<Longrightarrow> i < j \<Longrightarrow> j < length xss \<Longrightarrow> set (xss ! i) \<inter> set (xss ! j) = {}"
proof (induction xss arbitrary: i j)
  case Nil
  then show ?case by simp
next
  case (Cons xs xss)
  show ?case
  proof (cases i)
    case 0
    with Cons.prems obtain j' where j: "j = Suc j'" "j' < length xss" by (cases j) auto
    then have "xss ! j' \<in> set xss" by simp
    with Cons.prems(1) show ?thesis unfolding 0 j by auto
  next
    case (Suc i')
    with Cons.prems obtain j' where j: "j = Suc j'" "i' < j'" "j' < length xss" by (cases j) auto
    from Cons.prems(1) have "distinct (concat xss)" by simp
    from Cons.IH[OF this j(2,3)] show ?thesis unfolding Suc j by simp
  qed
qed

text \<open>
  C1, as the code has it. In every run, from every state, the answers to the polls of a
  device, one after the other in the order of the polls, followed by what is still on
  its queue, are the commands that were on its queue at the start followed by the
  commands enqueued for it, in the order they were enqueued. So every answer is a block
  of the enqueue order; once a poll closes the run nothing is left on the queue and the
  answers together are all the commands; and when the commands are distinct no two polls
  answer with the same command.
\<close>

theorem drains_fifo_exactly_once:
  "concat (drains d rs (fst (run rs s))) @ queue_of (snd (run rs s)) (KStr d)
     = queue_of s (KStr d) @ enqueues (KStr d) rs \<and>
   concat (drains d (rs @ [GetCommands d now]) (fst (run (rs @ [GetCommands d now]) s)))
     = queue_of s (KStr d) @ enqueues (KStr d) rs \<and>
   (distinct (queue_of s (KStr d) @ enqueues (KStr d) rs) \<longrightarrow>
      (\<forall>i j. i < j \<and> j < length (drains d rs (fst (run rs s))) \<longrightarrow>
         set (drains d rs (fst (run rs s)) ! i) \<inter> set (drains d rs (fst (run rs s)) ! j) = {}))"
proof -
  note a = run_fifo[of d rs s]
  have "concat (drains d (rs @ [GetCommands d now]) (fst (run (rs @ [GetCommands d now]) s)))
      = concat (drains d rs (fst (run rs s))) @ queue_of (snd (run rs s)) (KStr d)"
    by (simp add: run_append drains_append length_run fst_step_poll split_beta del: step.simps)
  with a have b: "concat (drains d (rs @ [GetCommands d now]) (fst (run (rs @ [GetCommands d now]) s)))
     = queue_of s (KStr d) @ enqueues (KStr d) rs" by simp
  have c: "set (drains d rs (fst (run rs s)) ! i) \<inter> set (drains d rs (fst (run rs s)) ! j) = {}"
    if "distinct (queue_of s (KStr d) @ enqueues (KStr d) rs)" "i < j"
       "j < length (drains d rs (fst (run rs s)))" for i j
  proof -
    from that(1) a have "distinct (concat (drains d rs (fst (run rs s))) @ queue_of (snd (run rs s)) (KStr d))"
      by simp
    then have "distinct (concat (drains d rs (fst (run rs s))))" by simp
    from distinct_concat_disjoint[OF this that(2,3)] show ?thesis .
  qed
  from a b c show ?thesis by blast
qed

theorem drains_fifo_exactly_once_witness:
  "distinct (queue_of init_state (KStr ''dev1'') @
      enqueues (KStr ''dev1'')
        [PostCommand (JDict [(''device_id'', JStr ''dev1''), (''action'', JStr ''ping'')]) ''c1'' 1,
         GetCommands ''dev1'' 2,
         PostCommand (JDict [(''device_id'', JStr ''dev1''), (''action'', JStr ''pong'')]) ''c2'' 3,
         GetCommands ''dev1'' 4]) \<and>
   drains ''dev1''
     [PostCommand (JDict [(''device_id'', JStr ''dev1''), (''action'', JStr ''ping'')]) ''c1'' 1,
      GetCommands ''dev1'' 2,
      PostCommand (JDict [(''device_id'', JStr ''dev1''), (''action'', JStr ''pong'')]) ''c2'' 3,
      GetCommands ''dev1'' 4]
     (fst (run
       [PostCommand (JDict [(''device_id'', JStr ''dev1''), (''action'', JStr ''ping'')]) ''c1'' 1,
        GetCommands ''dev1'' 2,
        PostCommand (JDict [(''device_id'', JStr ''dev1''), (''action'', JStr ''pong'')]) ''c2'' 3,
        GetCommands ''dev1'' 4] init_state))
   = [[\<lparr>cmd_id = ''c1'', cmd_action = JStr ''ping'', cmd_params = JDict [], cmd_timestamp = 1\<rparr>],
      [\<lparr>cmd_id = ''c2'', cmd_action = JStr ''pong'', cmd_params = JDict [], cmd_timestamp = 3\<rparr>]]"
  using drains_fifo_exactly_once
    [of "''dev1''"
      "[PostCommand (JDict [(''device_id'', JStr ''dev1''), (''action'', JStr ''ping'')]) ''c1'' 1,
        GetCommands ''dev1'' 2,
        PostCommand (JDict [(''device_id'', JStr ''dev1''), (''action'', JStr ''pong'')]) ''c2'' 3,
        GetCommands ''dev1'' 4]" init_state 5]
  by (simp add: enqueues_def enqueued_by_def queue_of_def init_state_def post_command_def
        get_commands_def Let_def)

text \<open>
  C1 as stated fails for a command enqueued after the last poll: it is in the answer of
  no poll (it waits on the queue for the next one).
\<close>

theorem drains_pending_counterexample:
  "enqueues (KStr ''dev1'')
     [PostCommand (JDict [(''device_id'', JStr ''dev1''), (''action'', JStr ''ping'')]) ''c1'' 1,
      GetCommands ''dev1'' 2,
      PostCommand (JDict [(''device_id'', JStr ''dev1''), (''action'', JStr ''pong'')]) ''c2'' 3]
   = [\<lparr>cmd_id = ''c1'', cmd_action = JStr ''ping'', cmd_params = JDict [], cmd_timestamp = 1\<rparr>,
      \<lparr>cmd_id = ''c2'', cmd_action = JStr ''pong'', cmd_params = JDict [], cmd_timestamp = 3\<rparr>] \<and>
   drains ''dev1''
     [PostCommand (JDict [(''device_id'', JStr ''dev1''), (''action'', JStr ''ping'')]) ''c1'' 1,
      GetCommands ''dev1'' 2,
      PostCommand (JDict [(''device_id'', JStr ''dev1''), (''action'', JStr ''pong'')]) ''c2'' 3]
     (fst (run
       [PostCommand (JDict [(''device_id'', JStr ''dev1''), (''action'', JStr ''ping'')]) ''c1'' 1,
        GetCommands ''dev1'' 2,
        PostCommand (JDict [(''device_id'', JStr ''dev1''), (''action'', JStr ''pong'')]) ''c2'' 3]
       init_state))
   = [[\<lparr>cmd_id = ''c1'', cmd_action = JStr ''ping'', cmd_params = JDict [], cmd_timestamp = 1\<rparr>]]"
  by (simp add: enqueues_def enqueued_by_def queue_of_def init_state_def post_command_def
        get_commands_def Let_def)

section \<open>Enqueueing: the answer and the identifier\<close>















section \<open>Runs: the last-seen record\<close>

lemma step_last_seen:
  "map_of (device_last_seen (snd (step r s))) d =
     (case r of GetCommands d' now \<Rightarrow> if d' = d then Some now else map_of (device_last_seen s) d
              | _ \<Rightarrow> map_of (device_last_seen s) d)"
  by (cases r)
     (simp_all add: snd_step get_commands_last_seen post_command_seen post_result_seen
        cleanup_pass_seen del: step.simps)

lemma run_last_seen:
  "map_of (device_last_seen (snd (run rs s))) d =
     (if poll_times d rs = [] then map_of (device_last_seen s) d else Some (last (poll_times d rs)))"
proof (induction rs arbitrary: s)
  case Nil
  then show ?case by simp
next
  case (Cons r rs)
  have "map_of (device_last_seen (snd (run (r # rs) s))) d
      = map_of (device_last_seen (snd (run rs (snd (step r s))))) d"
    by (simp only: run_Cons snd_conv)
  also have "\<dots> = (if poll_times d rs = [] then map_of (device_last_seen (snd (step r s))) d
                     else Some (last (poll_times d rs)))"
    by (rule Cons.IH)
  also have "\<dots> = (if poll_times d (r # rs) = [] then map_of (device_last_seen s) d
                     else Some (last (poll_times d (r # rs))))"
    by (cases r) (simp_all add: step_last_seen del: step.simps)
  finally show ?case .
qed

text \<open>
  C9, as the code has it. After a run the last-seen record of a device is the clock
  reading of its last poll (and what it was before, when the run has no poll of the
  device): a poll sets it to its reading, whatever the record held. So the record does
  not decrease over a run whose readings at the polls of the device do not decrease,
  starting with the recorded one.
\<close>

theorem last_seen_monotone:
  "map_of (device_last_seen (snd (run rs s))) d =
     (if poll_times d rs = [] then map_of (device_last_seen s) d else Some (last (poll_times d rs))) \<and>
   (\<forall>t1. map_of (device_last_seen s) d = Some t1 \<and> sorted (t1 # poll_times d rs) \<longrightarrow>
      (\<exists>t2. map_of (device_last_seen (snd (run rs s))) d = Some t2 \<and> t1 \<le> t2))"
proof -
  note a = run_last_seen[of rs s d]
  have b: "\<exists>t2. map_of (device_last_seen (snd (run rs s))) d = Some t2 \<and> t1 \<le> t2"
    if "map_of (device_last_seen s) d = Some t1" "sorted (t1 # poll_times d rs)" for t1
  proof (cases "poll_times d rs = []")
    case True
    with a that(1) show ?thesis by simp
  next
    case False
    then have "last (poll_times d rs) \<in> set (poll_times d rs)" by simp
    with that(2) have "t1 \<le> last (poll_times d rs)" by auto
    with a False show ?thesis by simp
  qed
  from a b show ?thesis by blast
qed

theorem last_seen_monotone_witness:
  "map_of (device_last_seen (snd (run [GetCommands ''dev1'' 5] init_state))) ''dev1'' = Some 5 \<and>
   sorted (5 # poll_times ''dev1'' [PostResult ''c1'' None (JInt 1) 6, GetCommands ''dev1'' 7,
                                     GetCommands ''dev2'' 3, GetCommands ''dev1'' 9]) \<and>
   map_of (device_last_seen
     (snd (run [PostResult ''c1'' None (JInt 1) 6, GetCommands ''dev1'' 7,
                GetCommands ''dev2'' 3, GetCommands ''dev1'' 9]
            (snd (run [GetCommands ''dev1'' 5] init_state))))) ''dev1'' = Some 9"
  using last_seen_monotone
    [of "[PostResult ''c1'' None (JInt 1) 6, GetCommands ''dev1'' 7,
          GetCommands ''dev2'' 3, GetCommands ''dev1'' 9]"
        "snd (run [GetCommands ''dev1'' 5] init_state)" "''dev1''"]
  by (simp add: init_state_def get_commands_def Let_def)

text \<open>
  C9 as stated fails when the clock steps back between two polls: the record follows it.
\<close>

theorem last_seen_rewind_counterexample:
  "map_of (device_last_seen (snd (run [GetCommands ''dev1'' 10] init_state))) ''dev1'' = Some 10 \<and>
   map_of (device_last_seen (snd (run [GetCommands ''dev1'' 10, GetCommands ''dev1'' 5] init_state)))
     ''dev1'' = Some 5"
  by (simp add: init_state_def get_commands_def Let_def)

section \<open>The stores of a run\<close>

text \<open>
  The stores start empty and every handler and every pass of the sweeper keeps the keys
  of each store distinct, so the theorems above that ask for distinct keys hold in every
  state a run reaches, and in a run the sweeper never meets a key that is gone.
\<close>

lemma wf_init: "wf_state init_state"
  by (simp add: wf_state_def init_state_def)

lemma wf_post_command: "wf_state s \<Longrightarrow> wf_state (snd (post_command data uuid now s))"
proof (cases "\<exists>kvs. data = JDict kvs")
  case True
  assume w: "wf_state s"
  from True obtain kvs where d: "data = JDict kvs" by blast
  show ?thesis using w unfolding d post_command_dict
    by (auto simp add: wf_state_def distinct_map_entry distinct_update split: option.splits)
next
  case False
  assume w: "wf_state s"
  from False have "\<forall>kvs. data \<noteq> JDict kvs" by simp
  from post_command_other[OF this] w show ?thesis by simp
qed

lemma wf_get_commands: "wf_state s \<Longrightarrow> wf_state (snd (get_commands d now s))"
  by (simp add: get_commands_def Let_def wf_state_def distinct_update split: option.splits)

lemma wf_post_result: "wf_state s \<Longrightarrow> wf_state (snd (post_result c fl data now s))"
  by (simp add: post_result_def post_result_json_def Let_def wf_state_def distinct_update
        split: option.splits prod.splits)

lemma wf_remove_expired: "wf_state s \<Longrightarrow> wf_state (snd (remove_expired ks s))"
proof (induction ks arbitrary: s)
  case Nil
  then show ?case by simp
next
  case (Cons k ks)
  show ?case
  proof (cases "map_of (results_store s) k")
    case None
    with Cons.prems show ?thesis by simp
  next
    case (Some v)
    have "wf_state ((case v of FileResult file_path filename t \<Rightarrow> s\<lparr>uploads := AList.delete file_path (uploads s)\<rparr>
              | DataResult data t \<Rightarrow> s)\<lparr>results_store := AList.delete k (results_store s)\<rparr>)"
      using Cons.prems by (cases v) (simp_all add: wf_state_def distinct_delete)
    from Cons.IH[OF this] Some show ?thesis
      by (cases v) (simp_all add: Let_def)
  qed
qed

lemma wf_cleanup_pass: "wf_state s \<Longrightarrow> wf_state (snd (cleanup_pass now s))"
  by (simp add: cleanup_pass_def Let_def split_beta wf_remove_expired)

lemma wf_step: "wf_state s \<Longrightarrow> wf_state (snd (step r s))"
  by (cases r)
     (simp_all add: snd_step wf_post_command wf_get_commands wf_post_result wf_cleanup_pass
        del: step.simps)

lemma wf_run: "wf_state s \<Longrightarrow> wf_state (snd (run rs s))"
proof (induction rs arbitrary: s)
  case Nil
  then show ?case by simp
next
  case (Cons r rs)
  from Cons.IH[OF wf_step[OF Cons.prems, of r]] show ?case
    by (simp only: run_Cons snd_conv)
qed

lemma sweeper_never_dies:
  "wf_state s \<Longrightarrow> SweeperDied \<notin> set (fst (run rs s))"
proof (induction rs arbitrary: s)
  case Nil
  then show ?case by simp
next
  case (Cons r rs)
  have "fst (step r s) \<noteq> SweeperDied"
  proof (cases r)
    case (Sweep now)
    from Cons.prems have d: "distinct (map fst (results_store s))" by (simp add: wf_state_def)
    from remove_expired_results[OF expired_sub expired_distinct[OF d], of now]
    show ?thesis unfolding Sweep by (simp add: cleanup_pass_def Let_def split_beta)
  qed (simp_all add: split_beta)
  with Cons.IH[OF wf_step[OF Cons.prems, of r]] show ?case
    by (simp add: run_Cons del: run.simps step.simps)
qed


end
